theory Spec2Isabelle
  imports Complex_Main
begin

section \<open>Exceptions\<close>

text \<open>
  The exceptions the logger can raise, as values. A function that may raise returns
  \<open>error + 'a\<close> with \<open>Inl\<close> carrying the exception. \<open>OSError\<close> stands for the
  errors of \<open>open\<close> other than a missing file to read: a missing directory, a refused
  permission. \<open>ResourceLimit\<close> stands for what the interpreter raises at one of its
  limits: RecursionError, MemoryError, the ValueError of an integer with too many
  digits. \<open>NotModelled\<close> is no Python exception: it marks an input outside the fragment
  of Python and numpy that is described here.
\<close>

datatype error =
    KeyError | ValueError | TypeError | IndexError | AttributeError
  | AssertionError | FileNotFoundError | OSError | ResourceLimit | NotModelled

section \<open>Slices of a run: \<open>Logger.run_slice\<close>\<close>

text \<open>
  \<open>list.index(x)\<close> is the position of the first element equal to \<open>x\<close> and raises
  ValueError when there is none. \<open>index_where\<close> is the search, for any test on the elements.
\<close>

fun index_where :: "('a \<Rightarrow> bool) \<Rightarrow> 'a list \<Rightarrow> nat option" where
  "index_where P [] = None"
| "index_where P (x # xs) = (if P x then Some 0 else map_option Suc (index_where P xs))"

definition list_index :: "'a list \<Rightarrow> 'a \<Rightarrow> error + nat" where
  "list_index xs x =
     (case index_where (\<lambda>y. y = x) xs of None \<Rightarrow> Inl ValueError | Some i \<Rightarrow> Inr i)"

text \<open>The object \<open>slice(start, stop)\<close>; both bounds are indices counted from the front.\<close>

record slice =
  start :: nat
  stop :: nat

text \<open>
  \<open>run_list[::-1]\<close> is the reversed list. The second search succeeds whenever the first
  one did, and finds an index below \<open>len(run_list)\<close>, so the subtraction stays in the
  naturals.
\<close>

definition run_slice :: "'a \<Rightarrow> 'a list \<Rightarrow> error + slice" where
  "run_slice run run_list =
     (case list_index run_list run of
        Inl e \<Rightarrow> Inl e
      | Inr run_start \<Rightarrow>
          (case list_index (rev run_list) run of
             Inl e \<Rightarrow> Inl e
           | Inr k \<Rightarrow> Inr \<lparr>start = run_start, stop = length run_list - k\<rparr>))"

section \<open>Means over runs of unequal length: \<open>Logger.mean_values\<close>\<close>

definition max_len :: "'a list list \<Rightarrow> nat" where
  "max_len xss = foldr (\<lambda>xs m. max (length xs) m) xss 0"

text \<open>
  \<open>itertools.zip_longest(*metric_list, fillvalue=None)\<close>: one row per position up to the
  longest argument, a run that has ended contributing \<open>None\<close>.
\<close>

definition zip_longest :: "'a list list \<Rightarrow> 'a option list list" where
  "zip_longest xss =
     map (\<lambda>e. map (\<lambda>xs. if e < length xs then Some (xs ! e) else None) xss) [0..<max_len xss]"

text \<open>
  \<open>np.mean\<close> is a parameter. \<open>epoch_metric[2]\<close> raises IndexError when the pivoted list
  has fewer than three rows; otherwise a \<open>None\<close> is appended to row 2, and the loop that
  follows removes every \<open>None\<close> again.
\<close>

definition mean_values :: "('a list \<Rightarrow> 'b) \<Rightarrow> 'a list list \<Rightarrow> error + 'b list" where
  "mean_values np_mean metric_list =
     (let epoch_metric = zip_longest metric_list in
      if length epoch_metric \<le> 2 then Inl IndexError
      else
        let epoch_metric = epoch_metric[2 := epoch_metric ! 2 @ [None]];
            epoch_metric = map (\<lambda>row. map the (filter (\<lambda>l. l \<noteq> None) row)) epoch_metric
        in Inr (map np_mean epoch_metric))"

text \<open>The arithmetic mean, in exact arithmetic.\<close>

definition mean :: "real list \<Rightarrow> real" where
  "mean xs = sum_list xs / of_nat (length xs)"

text \<open>
  What the documentation of \<open>mean_values\<close> asks for: at each epoch, the mean over the runs
  that reached that epoch.
\<close>

definition epoch_means :: "('a list \<Rightarrow> 'b) \<Rightarrow> 'a list list \<Rightarrow> 'b list" where
  "epoch_means np_mean metric_list =
     map (\<lambda>e. np_mean (map (\<lambda>xs. xs ! e) (filter (\<lambda>xs. e < length xs) metric_list)))
       [0..<max_len metric_list]"

section \<open>Python values\<close>

text \<open>
  The values that reach the logger: \<open>None\<close>, booleans, integers, floats, strings,
  lists, tuples, dictionaries with string keys in insertion order, and \<open>PObj\<close>, an
  object that has no methods or items of its own and that \<open>json\<close> cannot serialise.
  A float is \<open>PFloat q\<close>, the finite float whose exact value is \<open>q\<close>, or an infinity
  \<open>PInf positive\<close>, or \<open>PNaN\<close>; a real that no float has stands for no input, and the
  rounding of float arithmetic is not described. Values are copied, not shared: two
  entries never alias one list.
\<close>

datatype pyval =
    PNone
  | PBool bool
  | PInt int
  | PFloat real
  | PStr string
  | PList "pyval list"
  | PTuple "pyval list"
  | PDict "(string \<times> pyval) list"
  | PObj nat
  | PInf bool
  | PNaN

type_synonym pydict = "(string \<times> pyval) list"

text \<open>\<open>d[k] = v\<close>: an existing key keeps its place, a new key goes last.\<close>

fun dict_set :: "string \<Rightarrow> pyval \<Rightarrow> pydict \<Rightarrow> pydict" where
  "dict_set k v [] = [(k, v)]"
| "dict_set k v ((k', v') # d) = (if k' = k then (k, v) # d else (k', v') # dict_set k v d)"

text \<open>\<open>d[k]\<close> on a plain dictionary raises KeyError for a missing key.\<close>

definition dict_getitem :: "pydict \<Rightarrow> string \<Rightarrow> error + pyval" where
  "dict_getitem d k = (case map_of d k of None \<Rightarrow> Inl KeyError | Some v \<Rightarrow> Inr v)"

text \<open>
  \<open>v[k]\<close> for a string \<open>k\<close>: a dictionary looks the key up; every other value raises
  TypeError (sequences take integer indices, the rest is not subscriptable).
\<close>

definition py_subscript :: "pyval \<Rightarrow> string \<Rightarrow> error + pyval" where
  "py_subscript v k = (case v of PDict d \<Rightarrow> dict_getitem d k | _ \<Rightarrow> Inl TypeError)"

section \<open>The logger and its state\<close>

text \<open>
  The state of a \<open>Logger\<close> is \<open>self.logs\<close>. The constructor makes it a
  \<open>defaultdict(list)\<close>; \<open>load\<close> and \<open>print_experiment\<close> replace it by what
  \<open>json.load\<close> returned, a plain value. \<open>is_defaultdict\<close> tells the two apart. The four
  colour attributes are constants and are left out.
\<close>

record logger =
  logs :: pyval
  is_defaultdict :: bool

text \<open>\<open>__init__\<close>: an empty \<open>defaultdict(list)\<close>, then \<open>self.logs['info'] = info\<close>.\<close>

definition Logger_init :: "pyval \<Rightarrow> logger" where
  "Logger_init info = \<lparr>logs = PDict (dict_set ''info'' info []), is_defaultdict = True\<rparr>"

text \<open>
  A method is a function from the state to its result, or the exception it raised, and
  the state it left behind. \<open>sbind\<close> runs one statement after another and stops at the
  first exception; \<open>slift\<close> is an expression that does not touch the state.
\<close>

type_synonym 'a action = "logger \<Rightarrow> (error + 'a) \<times> logger"

definition sbind :: "'a action \<Rightarrow> ('a \<Rightarrow> 'b action) \<Rightarrow> 'b action" where
  "sbind m f lg = (case m lg of (Inl e, lg') \<Rightarrow> (Inl e, lg') | (Inr a, lg') \<Rightarrow> f a lg')"

definition sreturn :: "'a \<Rightarrow> 'a action" where
  "sreturn a lg = (Inr a, lg)"

definition slift :: "error + 'a \<Rightarrow> 'a action" where
  "slift r lg = (r, lg)"

definition ebind :: "error + 'a \<Rightarrow> ('a \<Rightarrow> error + 'b) \<Rightarrow> error + 'b" where
  "ebind r f = (case r of Inl e \<Rightarrow> Inl e | Inr a \<Rightarrow> f a)"

text \<open>
  \<open>self.logs[key]\<close>. On the \<open>defaultdict\<close> a missing key is first stored with an empty
  list, which is returned; on a plain dictionary it raises KeyError; when \<open>self.logs\<close>
  is no dictionary a string subscript raises TypeError.
\<close>

definition logs_getitem :: "string \<Rightarrow> pyval action" where
  "logs_getitem key lg =
     (case logs lg of
        PDict d \<Rightarrow>
          (case map_of d key of
             Some v \<Rightarrow> (Inr v, lg)
           | None \<Rightarrow>
               if is_defaultdict lg
               then (Inr (PList []), lg\<lparr>logs := PDict (dict_set key (PList []) d)\<rparr>)
               else (Inl KeyError, lg))
      | _ \<Rightarrow> (Inl TypeError, lg))"

definition logs_setitem :: "string \<Rightarrow> pyval \<Rightarrow> logger \<Rightarrow> logger" where
  "logs_setitem key v lg =
     (case logs lg of PDict d \<Rightarrow> lg\<lparr>logs := PDict (dict_set key v d)\<rparr> | _ \<Rightarrow> lg)"

section \<open>Recording results: \<open>Logger.log\<close>\<close>

text \<open>
  The statement \<open>self.logs[key].append(arg)\<close>. Python evaluates \<open>self.logs[key]\<close> first,
  then looks \<open>append\<close> up on it (AttributeError unless it is a list), then evaluates the
  argument, which may raise, and only then appends. The list is changed in place, that
  is, the entry under \<open>key\<close> is replaced by the longer list.
\<close>

definition log_append :: "string \<Rightarrow> (error + pyval) \<Rightarrow> unit action" where
  "log_append key arg =
     sbind (logs_getitem key) (\<lambda>target.
       case target of
         PList xs \<Rightarrow> sbind (slift arg) (\<lambda>x lg. (Inr (), logs_setitem key (PList (xs @ [x])) lg))
       | _ \<Rightarrow> slift (Inl AttributeError))"

definition sample_sets :: "string list" where
  "sample_sets = [''train'', ''valid'', ''test'']"

text \<open>
  The loop \<open>for k, v in results_dict.items()\<close>. The branch for a sample set reads
  \<open>results_dict[k]['loss']\<close> and \<open>results_dict[k]['roc']\<close>, the other branch appends \<open>v\<close>.
\<close>

fun log_items :: "pydict \<Rightarrow> pydict \<Rightarrow> unit action" where
  "log_items results_dict [] = sreturn ()"
| "log_items results_dict ((k, v) # items) =
     sbind
       (if k \<in> set sample_sets then
          sbind (log_append (k @ ''_loss'')
                   (ebind (dict_getitem results_dict k) (\<lambda>r. py_subscript r ''loss'')))
            (\<lambda>_. log_append (k @ ''_roc'')
                   (ebind (dict_getitem results_dict k) (\<lambda>r. py_subscript r ''roc'')))
        else log_append k (Inr v))
       (\<lambda>_. log_items results_dict items)"

definition log :: "logger \<Rightarrow> pydict \<Rightarrow> (error + unit) \<times> logger" where
  "log lg results_dict = log_items results_dict results_dict lg"

text \<open>A caller that logs one dictionary after another, going on after an exception.\<close>

fun log_calls :: "logger \<Rightarrow> pydict list \<Rightarrow> logger" where
  "log_calls lg [] = lg"
| "log_calls lg (results_dict # rest) = log_calls (snd (log lg results_dict)) rest"

subsection \<open>What the specification says about \<open>log\<close>\<close>

definition is_dict :: "logger \<Rightarrow> bool" where
  "is_dict lg = (case logs lg of PDict d \<Rightarrow> True | _ \<Rightarrow> False)"

text \<open>The entry of \<open>self.logs\<close> under a key, if there is one.\<close>

definition entry :: "logger \<Rightarrow> string \<Rightarrow> pyval option" where
  "entry lg k = (case logs lg of PDict d \<Rightarrow> map_of d k | _ \<Rightarrow> None)"

fun items_of :: "pyval option \<Rightarrow> pyval list" where
  "items_of (Some (PList xs)) = xs"
| "items_of _ = []"

text \<open>
  An entry \<open>log\<close> can append to: a list, or a key the \<open>defaultdict\<close> does not hold yet.
\<close>

definition appendable :: "logger \<Rightarrow> string \<Rightarrow> bool" where
  "appendable lg k =
     (case logs lg of
        PDict d \<Rightarrow>
          (case map_of d k of
             Some (PList xs) \<Rightarrow> True
           | Some _ \<Rightarrow> False
           | None \<Rightarrow> is_defaultdict lg)
      | _ \<Rightarrow> False)"

definition succeeds :: "error + 'a \<Rightarrow> bool" where
  "succeeds r = (case r of Inl _ \<Rightarrow> False | Inr _ \<Rightarrow> True)"

definition field :: "pyval \<Rightarrow> string \<Rightarrow> pyval" where
  "field v f = (case py_subscript v f of Inl _ \<Rightarrow> PNone | Inr x \<Rightarrow> x)"

text \<open>
  A results dictionary whose entries for the sample sets are dictionaries that hold
  \<open>'loss'\<close> and \<open>'roc'\<close>.
\<close>

definition well_formed :: "pydict \<Rightarrow> bool" where
  "well_formed results_dict =
     list_all (\<lambda>(k, v). k \<in> set sample_sets \<longrightarrow>
         succeeds (py_subscript v ''loss'') \<and> succeeds (py_subscript v ''roc''))
       results_dict"

text \<open>
  The values the specification has \<open>log\<close> append under the key \<open>t\<close>, in the order of the
  items: the loss of \<open>k\<close> under \<open>k + '_loss'\<close>, its roc under \<open>k + '_roc'\<close>, and the value of
  every other key under that key.
\<close>

fun logged :: "pydict \<Rightarrow> string \<Rightarrow> pyval list" where
  "logged [] t = []"
| "logged ((k, v) # results_dict) t =
     (if k \<in> set sample_sets then
        (if t = k @ ''_loss'' then [field v ''loss''] else []) @
        (if t = k @ ''_roc'' then [field v ''roc''] else [])
      else (if t = k then [v] else []))
     @ logged results_dict t"

text \<open>\<open>len(v)\<close>, for the values that have a length.\<close>

definition py_len :: "pyval \<Rightarrow> nat option" where
  "py_len v =
     (case v of
        PList xs \<Rightarrow> Some (length xs)
      | PTuple xs \<Rightarrow> Some (length xs)
      | PStr s \<Rightarrow> Some (length s)
      | PDict d \<Rightarrow> Some (length d)
      | _ \<Rightarrow> None)"

text \<open>
  The value of \<open>len(self.logs[key])\<close> in a state, \<open>None\<close> when the expression raises. A
  key the \<open>defaultdict\<close> does not hold reads as the empty list.
\<close>

definition metric_len :: "logger \<Rightarrow> string \<Rightarrow> nat option" where
  "metric_len lg key =
     (case logs lg of
        PDict d \<Rightarrow>
          (case map_of d key of
             Some v \<Rightarrow> py_len v
           | None \<Rightarrow> if is_defaultdict lg then Some 0 else None)
      | _ \<Rightarrow> None)"

text \<open>\<open>len(logs[s + '_loss']) == len(logs[s + '_roc'])\<close> evaluates to \<open>True\<close>.\<close>

definition aligned :: "logger \<Rightarrow> string \<Rightarrow> bool" where
  "aligned lg s =
     (case (metric_len lg (s @ ''_loss''), metric_len lg (s @ ''_roc'')) of
        (Some m, Some n) \<Rightarrow> m = n
      | _ \<Rightarrow> False)"

text \<open>Scalars are the numbers: booleans, integers and floats.\<close>

definition is_scalar :: "pyval \<Rightarrow> bool" where
  "is_scalar v =
     (case v of
        PBool b \<Rightarrow> True
      | PInt i \<Rightarrow> True
      | PFloat q \<Rightarrow> True
      | PInf s \<Rightarrow> True
      | PNaN \<Rightarrow> True
      | _ \<Rightarrow> False)"

definition scalar_list :: "pyval \<Rightarrow> bool" where
  "scalar_list v = (case v of PList xs \<Rightarrow> list_all is_scalar xs | _ \<Rightarrow> False)"

text \<open>Every value stored in \<open>self.logs\<close> is a list of scalars.\<close>

definition lists_of_scalars :: "logger \<Rightarrow> bool" where
  "lists_of_scalars lg =
     (case logs lg of PDict d \<Rightarrow> list_all (\<lambda>(k, v). scalar_list v) d | _ \<Rightarrow> False)"

text \<open>The same, for every key but \<open>'info'\<close>.\<close>

definition metric_lists_of_scalars :: "logger \<Rightarrow> bool" where
  "metric_lists_of_scalars lg =
     (case logs lg of
        PDict d \<Rightarrow> list_all (\<lambda>(k, v). k = ''info'' \<or> scalar_list v) d
      | _ \<Rightarrow> False)"

text \<open>
  What \<open>self.logs['info']\<close> holds of the argument \<open>info\<close>: the argument itself, or,
  when the argument is a list, a list that starts with its items.
\<close>

definition info_held :: "pyval \<Rightarrow> logger \<Rightarrow> bool" where
  "info_held info lg =
     (case entry lg ''info'' of
        None \<Rightarrow> False
      | Some v \<Rightarrow>
          (case info of
             PList xs \<Rightarrow> (case v of PList zs \<Rightarrow> take (length xs) zs = xs | _ \<Rightarrow> False)
           | _ \<Rightarrow> v = info))"

definition scalar_field :: "pyval \<Rightarrow> string \<Rightarrow> bool" where
  "scalar_field v f = (case py_subscript v f of Inl _ \<Rightarrow> True | Inr x \<Rightarrow> is_scalar x)"

text \<open>A results dictionary in which every value that \<open>log\<close> would append is a scalar.\<close>

definition scalar_results :: "pydict \<Rightarrow> bool" where
  "scalar_results results_dict =
     list_all (\<lambda>(k, v).
         if k \<in> set sample_sets then scalar_field v ''loss'' \<and> scalar_field v ''roc''
         else is_scalar v)
       results_dict"

section \<open>Saving and loading: \<open>Logger.save\<close>, \<open>Logger.load\<close>\<close>

text \<open>
  A JSON document as Python's \<open>json\<close> writes and reads it, with \<open>Infinity\<close>,
  \<open>-Infinity\<close> and \<open>NaN\<close> beside the numbers. The text of a file is not described: a
  file that holds JSON is the document its text denotes.
\<close>

datatype json =
    JNull
  | JBool bool
  | JInt int
  | JReal real
  | JStr string
  | JArr "json list"
  | JObj "(string \<times> json) list"
  | JInf bool
  | JNaN

text \<open>
  What \<open>json.dump\<close> writes for a value: a list and a tuple both become an array, a
  dictionary becomes an object with its keys in order, and an object of any other type
  raises TypeError (\<open>None\<close> here).
\<close>

fun to_json :: "pyval \<Rightarrow> json option"
  and to_json_list :: "pyval list \<Rightarrow> json list option"
  and to_json_items :: "pydict \<Rightarrow> (string \<times> json) list option" where
  "to_json PNone = Some JNull"
| "to_json (PBool b) = Some (JBool b)"
| "to_json (PInt i) = Some (JInt i)"
| "to_json (PFloat q) = Some (JReal q)"
| "to_json (PStr s) = Some (JStr s)"
| "to_json (PList xs) = map_option JArr (to_json_list xs)"
| "to_json (PTuple xs) = map_option JArr (to_json_list xs)"
| "to_json (PDict d) = map_option JObj (to_json_items d)"
| "to_json (PObj n) = None"
| "to_json (PInf s) = Some (JInf s)"
| "to_json PNaN = Some JNaN"
| "to_json_list [] = Some []"
| "to_json_list (x # xs) =
     (case to_json x of
        None \<Rightarrow> None
      | Some j \<Rightarrow> map_option ((#) j) (to_json_list xs))"
| "to_json_items [] = Some []"
| "to_json_items ((k, v) # d) =
     (case to_json v of
        None \<Rightarrow> None
      | Some j \<Rightarrow> map_option ((#) (k, j)) (to_json_items d))"

text \<open>
  What \<open>json.load\<close> builds: an array becomes a list, an object a dictionary filled
  member by member, so that a repeated key keeps its first place and its last value.
\<close>

definition build_dict :: "pydict \<Rightarrow> pydict" where
  "build_dict pairs = foldl (\<lambda>d (k, v). dict_set k v d) [] pairs"

fun from_json :: "json \<Rightarrow> pyval"
  and from_json_list :: "json list \<Rightarrow> pyval list"
  and from_json_items :: "(string \<times> json) list \<Rightarrow> pydict" where
  "from_json JNull = PNone"
| "from_json (JBool b) = PBool b"
| "from_json (JInt i) = PInt i"
| "from_json (JReal q) = PFloat q"
| "from_json (JStr s) = PStr s"
| "from_json (JArr js) = PList (from_json_list js)"
| "from_json (JObj members) = PDict (build_dict (from_json_items members))"
| "from_json (JInf s) = PInf s"
| "from_json JNaN = PNaN"
| "from_json_list [] = []"
| "from_json_list (j # js) = from_json j # from_json_list js"
| "from_json_items [] = []"
| "from_json_items ((k, j) # members) = (k, from_json j) # from_json_items members"

text \<open>
  The platform the program runs on. Its files: a path has no file, a file that holds a
  JSON document, or a file whose text is no JSON (\<open>Garbled\<close>, as a dump that failed
  half-way leaves it). \<open>writable p\<close> says that \<open>open(p, 'w')\<close> and the writes that follow
  succeed: the directory is there, the permissions allow it, the disk has room.
  \<open>readable p\<close> says that \<open>open(p)\<close> and the reads that follow succeed if a file is
  there. \<open>within_limits v\<close> says that no limit of the interpreter (recursion depth,
  memory, digits of an integer) stops \<open>json.dump\<close> on the value \<open>v\<close>, nor \<open>json.load\<close>
  on a document that gives \<open>v\<close>.
\<close>

datatype file_content = Json json | Garbled

record platform =
  files :: "string \<Rightarrow> file_content option"
  writable :: "string \<Rightarrow> bool"
  readable :: "string \<Rightarrow> bool"
  within_limits :: "pyval \<Rightarrow> bool"

definition endswith :: "string \<Rightarrow> string \<Rightarrow> bool" where
  "endswith s suffix =
     (length suffix \<le> length s \<and> drop (length s - length suffix) s = suffix)"

text \<open>
  \<open>save\<close>: the assertion on the path, then \<open>open(filepath, 'w')\<close>, which raises where
  the path cannot be written and otherwise empties the file, and
  \<open>json.dump(self.logs, fp)\<close>, which leaves the file without a document when it
  raises. The logger itself is not changed.
\<close>

definition save :: "logger \<Rightarrow> string \<Rightarrow> platform \<Rightarrow> (error + unit) \<times> platform" where
  "save lg filepath fs =
     (if \<not> endswith filepath ''.json'' then (Inl AssertionError, fs)
      else if \<not> writable fs filepath then (Inl OSError, fs)
      else if \<not> within_limits fs (logs lg)
        then (Inl ResourceLimit, fs\<lparr>files := (files fs)(filepath \<mapsto> Garbled)\<rparr>)
      else
        (case to_json (logs lg) of
           None \<Rightarrow> (Inl TypeError, fs\<lparr>files := (files fs)(filepath \<mapsto> Garbled)\<rparr>)
         | Some j \<Rightarrow> (Inr (), fs\<lparr>files := (files fs)(filepath \<mapsto> Json j)\<rparr>)))"

text \<open>
  \<open>json.load(open(filepath))\<close>: an OSError where the path cannot be read,
  FileNotFoundError without a file, JSONDecodeError, which is a ValueError, on text
  that is no JSON.
\<close>

definition json_load :: "platform \<Rightarrow> string \<Rightarrow> error + pyval" where
  "json_load fs filepath =
     (if \<not> readable fs filepath then Inl OSError
      else
        (case files fs filepath of
           None \<Rightarrow> Inl FileNotFoundError
         | Some Garbled \<Rightarrow> Inl ValueError
         | Some (Json j) \<Rightarrow>
             if within_limits fs (from_json j) then Inr (from_json j) else Inl ResourceLimit))"

text \<open>\<open>load\<close>: \<open>self.logs = json.load(fp)\<close>, a plain value and no \<open>defaultdict\<close>.\<close>

definition load :: "platform \<Rightarrow> string \<Rightarrow> unit action" where
  "load fs filepath lg =
     (case json_load fs filepath of
        Inl e \<Rightarrow> (Inl e, lg)
      | Inr v \<Rightarrow> (Inr (), \<lparr>logs = v, is_defaultdict = False\<rparr>))"

text \<open>A value is JSON-serialisable when \<open>json.dump\<close> accepts it.\<close>

definition serialisable :: "pyval \<Rightarrow> bool" where
  "serialisable v = (to_json v \<noteq> None)"

text \<open>
  The values that come back equal: \<open>None\<close>, booleans, integers, floats other than NaN,
  strings, lists and dictionaries of such values. An association list stands for a
  dictionary when no key occurs twice.
\<close>

fun json_native :: "pyval \<Rightarrow> bool"
  and json_native_list :: "pyval list \<Rightarrow> bool"
  and json_native_items :: "pydict \<Rightarrow> bool" where
  "json_native PNone = True"
| "json_native (PBool b) = True"
| "json_native (PInt i) = True"
| "json_native (PFloat q) = True"
| "json_native (PStr s) = True"
| "json_native (PList xs) = json_native_list xs"
| "json_native (PTuple xs) = False"
| "json_native (PDict d) = (distinct (map fst d) \<and> json_native_items d)"
| "json_native (PObj n) = False"
| "json_native (PInf s) = True"
| "json_native PNaN = False"
| "json_native_list [] = True"
| "json_native_list (x # xs) = (json_native x \<and> json_native_list xs)"
| "json_native_items [] = True"
| "json_native_items ((k, v) # d) = (json_native v \<and> json_native_items d)"

section \<open>Comparisons and sequences of Python\<close>

text \<open>
  The finite number a value stands for; \<open>True\<close> and \<open>False\<close> are the integers 1 and 0.
\<close>

definition num_val :: "pyval \<Rightarrow> real option" where
  "num_val v =
     (case v of
        PBool b \<Rightarrow> Some (if b then 1 else 0)
      | PInt i \<Rightarrow> Some (of_int i)
      | PFloat q \<Rightarrow> Some q
      | _ \<Rightarrow> None)"

text \<open>
  The numbers with the infinities and NaN, and their order: NaN is below nothing and
  nothing is below NaN.
\<close>

datatype number = Finite real | Infinite bool | NotANumber

definition number_of :: "pyval \<Rightarrow> number option" where
  "number_of v =
     (case v of
        PInf s \<Rightarrow> Some (Infinite s)
      | PNaN \<Rightarrow> Some NotANumber
      | _ \<Rightarrow> map_option Finite (num_val v))"

fun number_lt :: "number \<Rightarrow> number \<Rightarrow> bool" where
  "number_lt (Finite x) (Finite y) = (x < y)"
| "number_lt (Finite x) (Infinite t) = t"
| "number_lt (Infinite s) (Finite y) = (\<not> s)"
| "number_lt (Infinite s) (Infinite t) = (\<not> s \<and> t)"
| "number_lt NotANumber y = False"
| "number_lt x NotANumber = False"

definition num_lt :: "number \<Rightarrow> pyval \<Rightarrow> error + bool" where
  "num_lt x b = (case number_of b of None \<Rightarrow> Inl TypeError | Some y \<Rightarrow> Inr (number_lt x y))"

text \<open>Whether a value is a NaN or holds one.\<close>

fun has_nan :: "pyval \<Rightarrow> bool"
  and has_nan_list :: "pyval list \<Rightarrow> bool"
  and has_nan_items :: "pydict \<Rightarrow> bool" where
  "has_nan PNone = False"
| "has_nan (PBool b) = False"
| "has_nan (PInt i) = False"
| "has_nan (PFloat q) = False"
| "has_nan (PStr s) = False"
| "has_nan (PList xs) = has_nan_list xs"
| "has_nan (PTuple xs) = has_nan_list xs"
| "has_nan (PDict d) = has_nan_items d"
| "has_nan (PObj n) = False"
| "has_nan (PInf s) = False"
| "has_nan PNaN = True"
| "has_nan_list [] = False"
| "has_nan_list (x # xs) = (has_nan x \<or> has_nan_list xs)"
| "has_nan_items [] = False"
| "has_nan_items ((k, v) # d) = (has_nan v \<or> has_nan_items d)"

text \<open>
  \<open>a == b\<close>: numbers by value, NaN equal to nothing, not even to itself; strings by
  their characters, lists and tuples item by item, dictionaries by their keys and the
  values under them, whatever the order; an object equals itself only. Values of
  different kinds are unequal. The items of two containers, and the item that \<open>index\<close>
  looks for, count as equal in Python also when they are one and the same object;
  that differs from \<open>==\<close> only where both sides hold a NaN, and there the comparison
  is not described (see \<open>py_lt_list\<close> and \<open>run_bounds\<close>): \<open>py_eq\<close> is \<open>==\<close> between two
  values that share no NaN.
\<close>

fun py_eq :: "pyval \<Rightarrow> pyval \<Rightarrow> bool"
  and py_eq_list :: "pyval list \<Rightarrow> pyval list \<Rightarrow> bool"
  and py_eq_items :: "pydict \<Rightarrow> pydict \<Rightarrow> bool" where
  "py_eq PNone b = (b = PNone)"
| "py_eq (PBool x) b = (num_val b = Some (if x then 1 else 0))"
| "py_eq (PInt i) b = (num_val b = Some (of_int i))"
| "py_eq (PFloat q) b = (num_val b = Some q)"
| "py_eq (PStr s) b = (b = PStr s)"
| "py_eq (PList xs) b = (case b of PList ys \<Rightarrow> py_eq_list xs ys | _ \<Rightarrow> False)"
| "py_eq (PTuple xs) b = (case b of PTuple ys \<Rightarrow> py_eq_list xs ys | _ \<Rightarrow> False)"
| "py_eq (PDict d) b =
     (case b of PDict d' \<Rightarrow> length d = length d' \<and> py_eq_items d d' | _ \<Rightarrow> False)"
| "py_eq (PObj n) b = (b = PObj n)"
| "py_eq (PInf s) b = (b = PInf s)"
| "py_eq PNaN b = False"
| "py_eq_list [] ys = (ys = [])"
| "py_eq_list (x # xs) ys =
     (case ys of [] \<Rightarrow> False | y # ys' \<Rightarrow> py_eq x y \<and> py_eq_list xs ys')"
| "py_eq_items [] d' = True"
| "py_eq_items ((k, v) # d) d' =
     (case map_of d' k of None \<Rightarrow> False | Some w \<Rightarrow> py_eq v w \<and> py_eq_items d d')"

text \<open>Strings are ordered by their first differing character, a proper prefix first.\<close>

fun str_lt :: "string \<Rightarrow> string \<Rightarrow> bool" where
  "str_lt [] t = (t \<noteq> [])"
| "str_lt (c # s) t =
     (case t of
        [] \<Rightarrow> False
      | d # t' \<Rightarrow> if c = d then str_lt s t' else (of_char c :: nat) < of_char d)"

text \<open>
  \<open>a < b\<close>: numbers by value, false when one of them is NaN; strings as above, two
  lists or two tuples by their first pair of unequal items. Every other pair raises
  TypeError. \<open>b > a\<close> has the same value and raises in the same cases.
\<close>

fun py_lt :: "pyval \<Rightarrow> pyval \<Rightarrow> error + bool"
  and py_lt_list :: "pyval list \<Rightarrow> pyval list \<Rightarrow> error + bool" where
  "py_lt PNone b = Inl TypeError"
| "py_lt (PBool x) b = num_lt (Finite (if x then 1 else 0)) b"
| "py_lt (PInt i) b = num_lt (Finite (of_int i)) b"
| "py_lt (PFloat q) b = num_lt (Finite q) b"
| "py_lt (PStr s) b = (case b of PStr t \<Rightarrow> Inr (str_lt s t) | _ \<Rightarrow> Inl TypeError)"
| "py_lt (PList xs) b = (case b of PList ys \<Rightarrow> py_lt_list xs ys | _ \<Rightarrow> Inl TypeError)"
| "py_lt (PTuple xs) b = (case b of PTuple ys \<Rightarrow> py_lt_list xs ys | _ \<Rightarrow> Inl TypeError)"
| "py_lt (PDict d) b = Inl TypeError"
| "py_lt (PObj n) b = Inl TypeError"
| "py_lt (PInf s) b = num_lt (Infinite s) b"
| "py_lt PNaN b = num_lt NotANumber b"
| "py_lt_list [] ys = Inr (ys \<noteq> [])"
| "py_lt_list (x # xs) ys =
     (case ys of
        [] \<Rightarrow> Inr False
      | y # ys' \<Rightarrow>
          if has_nan x \<and> has_nan y then Inl NotModelled
          else if py_eq x y then py_lt_list xs ys' else py_lt x y)"
















section \<open>Summaries: \<open>Logger.print\<close>, \<open>Logger.print_experiment\<close>\<close>














subsection \<open>What reading only means\<close>









section \<open>Choosing the run to plot: \<open>Logger.plot_run\<close>\<close>







section \<open>Examples\<close>






text \<open>
  The logs of two runs of two epochs each, an experiment file with one log, and a
  platform that holds this file alone, lets every path be written and read and sets
  no limit.
\<close>

definition example_logs :: pyval where
  "example_logs = PDict
     [(''info'', PDict [(''model_type'', PStr ''GCN'')]),
      (''run'', PList [PInt 1, PInt 1, PInt 2, PInt 2]),
      (''train_loss'', PList [PFloat 4, PFloat 3, PFloat 5, PFloat 2]),
      (''train_roc'', PList [PFloat (1/2), PFloat (3/4), PFloat (1/4), PFloat (3/4)]),
      (''valid_loss'', PList [PFloat 5, PFloat 4, PFloat 3, PFloat 6]),
      (''valid_roc'', PList [PFloat (1/4), PFloat (1/2), PFloat (1/2), PFloat (1/4)])]"

definition example_experiment :: json where
  "example_experiment = JArr
     [JObj [(''info'', JObj [(''model_type'', JStr ''MLP'')]),
            (''run'', JArr [JInt 1]),
            (''train_loss'', JArr [JReal 2]),
            (''train_roc'', JArr [JReal (1/2)]),
            (''valid_loss'', JArr [JReal 3]),
            (''valid_roc'', JArr [JReal (1/4)])]]"

definition example_platform :: platform where
  "example_platform =
     \<lparr>files = Map.empty(''experiment.json'' \<mapsto> Json example_experiment),
      writable = (\<lambda>p. True), readable = (\<lambda>p. True), within_limits = (\<lambda>v. True)\<rparr>"

text \<open>The same platform without the directory \<open>missing\<close>.\<close>

definition missing_directory :: platform where
  "missing_directory =
     example_platform\<lparr>writable := (\<lambda>p. take 8 p \<noteq> ''missing/'')\<rparr>"

section \<open>Properties of \<open>run_slice\<close>\<close>

lemma index_where_Some:
  "index_where P xs = Some i \<longleftrightarrow> i < length xs \<and> P (xs ! i) \<and> (\<forall>j<i. \<not> P (xs ! j))"
proof (induction xs arbitrary: i)
  case Nil
  show ?case by simp
next
  case (Cons x xs)
  show ?case
  proof (cases "P x")
    case True
    then show ?thesis by (cases i) auto
  next
    case False
    show ?thesis
    proof (cases i)
      case 0
      with False show ?thesis by simp
    next
      case (Suc n)
      have "(\<forall>j<Suc n. \<not> P ((x # xs) ! j)) \<longleftrightarrow> (\<forall>j<n. \<not> P (xs ! j))"
        using False by (auto simp: less_Suc_eq_0_disj)
      with False Suc Cons.IH [of n] show ?thesis by auto
    qed
  qed
qed

lemma index_where_None: "index_where P xs = None \<longleftrightarrow> (\<forall>x\<in>set xs. \<not> P x)"
  by (induction xs) auto

lemma index_where_found:
  assumes "x \<in> set xs" and "P x"
  obtains i where "index_where P xs = Some i"
  using assms index_where_None [of P xs] by (cases "index_where P xs") auto

text \<open>
  C1. When \<open>r\<close> occurs in \<open>run_list\<close> and its occurrences are contiguous,
  \<open>run_slice\<close> returns the slice that starts at the first occurrence of \<open>r\<close> and stops one
  past the last one; the slice then covers occurrences of \<open>r\<close> only.
\<close>

theorem run_slice_first_last:
  assumes occurs: "r \<in> set run_list"
    and contiguous: "\<forall>i j k. i \<le> j \<and> j \<le> k \<and> k < length run_list \<and>
           run_list ! i = r \<and> run_list ! k = r \<longrightarrow> run_list ! j = r"
  shows "\<exists>s e. run_slice r run_list = Inr \<lparr>start = s, stop = e\<rparr> \<and>
           s < e \<and> e \<le> length run_list \<and>
           run_list ! s = r \<and> (\<forall>j<s. run_list ! j \<noteq> r) \<and>
           run_list ! (e - 1) = r \<and> (\<forall>j. e \<le> j \<and> j < length run_list \<longrightarrow> run_list ! j \<noteq> r) \<and>
           (\<forall>j. s \<le> j \<and> j < e \<longrightarrow> run_list ! j = r)"
proof -
  let ?n = "length run_list"
  obtain s where s: "index_where (\<lambda>y. y = r) run_list = Some s"
    using occurs by (rule index_where_found) simp
  have "r \<in> set (rev run_list)" using occurs by simp
  then obtain k where k: "index_where (\<lambda>y. y = r) (rev run_list) = Some k"
    by (rule index_where_found) simp
  from s have s_lt: "s < ?n" and s_at: "run_list ! s = r"
    and s_first: "\<forall>j<s. run_list ! j \<noteq> r"
    by (simp_all add: index_where_Some)
  from k have k_lt: "k < ?n" and k_at: "rev run_list ! k = r"
    and k_first: "\<forall>j<k. rev run_list ! j \<noteq> r"
    by (simp_all add: index_where_Some)
  define e where "e = ?n - k"
  have e_le: "e \<le> ?n" and e_pos: "0 < e" using k_lt by (simp_all add: e_def)
  have e_at: "run_list ! (e - 1) = r"
    using k_at k_lt by (simp add: rev_nth e_def)
  have e_last: "run_list ! j \<noteq> r" if "e \<le> j" "j < ?n" for j
  proof -
    have "?n - Suc j < k" using that k_lt by (simp add: e_def)
    then have "rev run_list ! (?n - Suc j) \<noteq> r" using k_first by blast
    moreover have "rev run_list ! (?n - Suc j) = run_list ! j"
      using that by (simp add: rev_nth)
    ultimately show ?thesis by simp
  qed
  have s_lt_e: "s < e"
  proof (rule ccontr)
    assume "\<not> s < e"
    then have "e \<le> s" by simp
    with e_last s_lt s_at show False by blast
  qed
  have inside: "run_list ! j = r" if "s \<le> j" "j < e" for j
  proof -
    have "s \<le> j \<and> j \<le> e - 1 \<and> e - 1 < ?n \<and> run_list ! s = r \<and> run_list ! (e - 1) = r"
      using that s_at e_at e_le e_pos by auto
    with contiguous show ?thesis by blast
  qed
  have "run_slice r run_list = Inr \<lparr>start = s, stop = e\<rparr>"
    using s k by (simp add: run_slice_def list_index_def e_def)
  with s_lt_e e_le s_at s_first e_at e_last inside show ?thesis by blast
qed

theorem run_slice_first_last_witness:
  "run_slice (2::int) [1, 2, 2, 3] = Inr \<lparr>start = 1, stop = 3\<rparr>"
proof -
  let ?xs = "[1, 2, 2, 3::int]"
  have occurs: "(2::int) \<in> set ?xs" by simp
  have nth: "?xs ! j = 2 \<longleftrightarrow> j = 1 \<or> j = 2" if "j < 4" for j
  proof -
    from that have "j = 0 \<or> j = 1 \<or> j = 2 \<or> j = 3" by arith
    then show ?thesis by auto
  qed
  have contiguous: "\<forall>i j k. i \<le> j \<and> j \<le> k \<and> k < length ?xs \<and>
      ?xs ! i = 2 \<and> ?xs ! k = 2 \<longrightarrow> ?xs ! j = 2"
  proof (intro allI impI)
    fix i j k :: nat
    assume h: "i \<le> j \<and> j \<le> k \<and> k < length ?xs \<and> ?xs ! i = 2 \<and> ?xs ! k = 2"
    then have "i < 4" "j < 4" "k < 4" by simp_all
    with h nth [of i] nth [of k] nth [of j] show "?xs ! j = 2" by auto
  qed
  from run_slice_first_last [OF occurs contiguous]
  obtain s e where "run_slice (2::int) ?xs = Inr \<lparr>start = s, stop = e\<rparr>" by blast
  moreover have "run_slice (2::int) ?xs = Inr \<lparr>start = 1, stop = 3\<rparr>"
    by (simp add: run_slice_def list_index_def)
  ultimately show ?thesis by simp
qed

text \<open>
  X2. When \<open>r\<close> does not occur in \<open>run_list\<close>, \<open>run_slice\<close> raises ValueError.
\<close>

theorem run_slice_absent:
  assumes "r \<notin> set run_list"
  shows "run_slice r run_list = Inl ValueError"
proof -
  from assms have "index_where (\<lambda>y. y = r) run_list = None"
    by (auto simp: index_where_None)
  then show ?thesis by (simp add: run_slice_def list_index_def)
qed

theorem run_slice_absent_witness: "run_slice (4::int) [1, 2, 2, 3] = Inl ValueError"
proof -
  have "(4::int) \<notin> set [1, 2, 2, 3]" by simp
  then show ?thesis by (rule run_slice_absent)
qed

section \<open>Properties of \<open>mean_values\<close>\<close>

lemma max_len_less: "(\<forall>xs\<in>set xss. length xs < n) \<Longrightarrow> 0 < n \<Longrightarrow> max_len xss < n"
  by (induction xss) (auto simp: max_len_def)

lemma length_zip_longest: "length (zip_longest xss) = max_len xss"
  by (simp add: zip_longest_def)

text \<open>
  C9. When no run in \<open>metric_list\<close> has three entries, the pivoted list has no row 2 and
  \<open>mean_values\<close> raises IndexError, whatever \<open>np.mean\<close> would compute.
\<close>

theorem mean_values_short_IndexError:
  assumes "\<forall>xs\<in>set metric_list. length xs < 3"
  shows "mean_values np_mean metric_list = Inl IndexError"
proof -
  have "max_len metric_list < 3" using assms by (rule max_len_less) simp
  then show ?thesis by (simp add: mean_values_def length_zip_longest)
qed

theorem mean_values_short_IndexError_witness:
  "mean_values mean [[1, 2], [3::real]] = Inl IndexError"
proof -
  have h: "\<forall>xs\<in>set [[1, 2], [3::real]]. length xs < 3" by simp
  from mean_values_short_IndexError [OF h, of mean] show ?thesis .
qed

text \<open>
  C2. Two runs, one of two epochs with losses 4 and 2, one of a single epoch with loss 6:
  the means per epoch are 5 and 2, and \<open>mean_values\<close> raises IndexError instead.
\<close>

theorem mean_values_two_epochs:
  "mean_values mean [[4, 2], [6]] = Inl IndexError \<and> epoch_means mean [[4, 2], [6]] = [5, 2]"
  by (simp add: mean_values_def epoch_means_def zip_longest_def max_len_def mean_def upt_rec)

lemma max_len_ge: "xs \<in> set xss \<Longrightarrow> length xs \<le> max_len xss"
  by (induction xss) (auto simp: max_len_def)

lemma drop_nones_row:
  "map the (filter (\<lambda>l. l \<noteq> None)
      (map (\<lambda>xs. if e < length xs then Some (xs ! e) else None) xss)) =
   map (\<lambda>xs. xs ! e) (filter (\<lambda>xs. e < length xs) xss)"
  by (induction xss) auto

text \<open>
  X1. When some run in \<open>metric_list\<close> has at least three entries, \<open>mean_values\<close> returns
  the mean per epoch over the runs that reached that epoch: the \<open>None\<close> appended to
  row 2 is removed with the others.
\<close>

theorem mean_values_long:
  assumes "xs \<in> set metric_list" and "3 \<le> length xs"
  shows "mean_values np_mean metric_list = Inr (epoch_means np_mean metric_list)"
proof -
  let ?clean = "\<lambda>row :: 'a option list. map the (filter (\<lambda>l. l \<noteq> None) row)"
  let ?rows = "zip_longest metric_list"
  from max_len_ge [OF assms(1)] assms(2) have long: "2 < length ?rows"
    by (simp add: length_zip_longest)
  have "map ?clean (?rows[2 := ?rows ! 2 @ [None]]) = (map ?clean ?rows)[2 := ?clean (?rows ! 2)]"
    by (simp add: map_update)
  also have "\<dots> = map ?clean ?rows"
    using long by (simp add: list_update_same_conv)
  also have "\<dots> = map (\<lambda>e. map (\<lambda>xs. xs ! e) (filter (\<lambda>xs. e < length xs) metric_list))
      [0..<max_len metric_list]"
    by (simp only: zip_longest_def map_map comp_def drop_nones_row)
  finally have eq: "map ?clean (?rows[2 := ?rows ! 2 @ [None]]) =
      map (\<lambda>e. map (\<lambda>xs. xs ! e) (filter (\<lambda>xs. e < length xs) metric_list))
      [0..<max_len metric_list]" .
  have "mean_values np_mean metric_list =
      Inr (map np_mean (map ?clean (?rows[2 := ?rows ! 2 @ [None]])))"
    using long by (simp add: mean_values_def Let_def)
  also have "\<dots> = Inr (epoch_means np_mean metric_list)"
    unfolding eq by (simp add: epoch_means_def comp_def)
  finally show ?thesis .
qed

theorem mean_values_long_witness:
  "mean_values mean [[4, 2, 3], [6, 4]] = Inr [5, 3, 3]"
proof -
  have "[4, 2, 3 :: real] \<in> set [[4, 2, 3], [6, 4]]" "3 \<le> length [4, 2, 3 :: real]" by simp_all
  from mean_values_long [OF this, of mean] show ?thesis
    by (simp add: epoch_means_def max_len_def mean_def upt_rec)
qed

section \<open>Properties of \<open>log\<close>\<close>

lemma map_of_dict_set: "map_of (dict_set k v d) = (map_of d)(k \<mapsto> v)"
  by (induction d) auto

lemma dict_set_twice: "dict_set k v (dict_set k w d) = dict_set k v d"
  by (induction d) auto

lemma log_append_cases:
  "log_append key arg lg =
     (case logs lg of
        PDict d \<Rightarrow>
          (case map_of d key of
             Some (PList xs) \<Rightarrow>
               (case arg of
                  Inl e \<Rightarrow> (Inl e, lg)
                | Inr x \<Rightarrow> (Inr (), lg\<lparr>logs := PDict (dict_set key (PList (xs @ [x])) d)\<rparr>))
           | Some _ \<Rightarrow> (Inl AttributeError, lg)
           | None \<Rightarrow>
               if is_defaultdict lg then
                 (case arg of
                    Inl e \<Rightarrow> (Inl e, lg\<lparr>logs := PDict (dict_set key (PList []) d)\<rparr>)
                  | Inr x \<Rightarrow> (Inr (), lg\<lparr>logs := PDict (dict_set key (PList [x]) d)\<rparr>))
               else (Inl KeyError, lg))
      | _ \<Rightarrow> (Inl TypeError, lg))"
  by (simp add: log_append_def sbind_def logs_getitem_def slift_def logs_setitem_def
      dict_set_twice split: pyval.splits option.splits sum.splits)

lemma log_append_Inr:
  assumes "log_append key arg lg = (Inr u, lg')"
  shows "\<exists>x. arg = Inr x \<and> appendable lg key \<and>
           entry lg' = (entry lg)(key \<mapsto> PList (items_of (entry lg key) @ [x])) \<and>
           is_defaultdict lg' = is_defaultdict lg \<and> is_dict lg \<and> is_dict lg'"
  using assms unfolding log_append_cases
  by (auto simp: entry_def appendable_def map_of_dict_set is_dict_def fun_eq_iff
      split: pyval.splits option.splits sum.splits if_splits)

lemma log_append_succeeds:
  assumes "appendable lg key"
  shows "\<exists>lg'. log_append key (Inr x) lg = (Inr (), lg')"
  using assms unfolding log_append_cases
  by (auto simp: appendable_def split: pyval.splits option.splits)

lemma appendable_before:
  assumes "log_append key arg lg = (Inr u, lg')" and "appendable lg' t"
  shows "appendable lg t"
  using assms unfolding log_append_cases
  by (auto simp: appendable_def map_of_dict_set
      split: pyval.splits option.splits sum.splits if_splits)

lemma appendable_after:
  assumes "log_append key arg lg = (Inr u, lg')" and "appendable lg t"
  shows "appendable lg' t"
  using assms unfolding log_append_cases
  by (auto simp: appendable_def map_of_dict_set
      split: pyval.splits option.splits sum.splits if_splits)

lemma loss_neq_roc: "k @ ''_loss'' \<noteq> k' @ ''_roc''"
proof
  assume "k @ ''_loss'' = k' @ ''_roc''"
  then have "last (k @ ''_loss'') = last (k' @ ''_roc'')" by simp
  then show False by simp
qed

lemma sbind_Inr:
  "sbind m f lg = (Inr b, lg') \<longleftrightarrow> (\<exists>a lg1. m lg = (Inr a, lg1) \<and> f a lg1 = (Inr b, lg'))"
  by (auto simp: sbind_def split: prod.splits sum.splits)

lemma log_items_Inr:
  assumes "log_items rd items lg = (Inr u, lg')"
    and "\<forall>(k, v)\<in>set items. map_of rd k = Some v"
  shows "is_defaultdict lg' = is_defaultdict lg \<and>
         (\<forall>t. entry lg' t =
            (if logged items t = [] then entry lg t
             else Some (PList (items_of (entry lg t) @ logged items t))))"
  using assms
proof (induction items arbitrary: lg)
  case Nil
  then show ?case by (simp add: sreturn_def)
next
  case (Cons item items)
  obtain k v where item: "item = (k, v)" by (cases item)
  from Cons.prems(2) item have lookup: "dict_getitem rd k = Inr v"
    and rest: "\<forall>(k, v)\<in>set items. map_of rd k = Some v"
    by (auto simp: dict_getitem_def)
  show ?case
  proof (cases "k \<in> set sample_sets")
    case True
    from Cons.prems(1) item True lookup obtain lg1 lg2 where
      a1: "log_append (k @ ''_loss'') (py_subscript v ''loss'') lg = (Inr (), lg1)" and
      a2: "log_append (k @ ''_roc'') (py_subscript v ''roc'') lg1 = (Inr (), lg2)" and
      a3: "log_items rd items lg2 = (Inr u, lg')"
      by (auto simp: sbind_Inr ebind_def)
    from log_append_Inr [OF a1] obtain x1 where
      x1: "py_subscript v ''loss'' = Inr x1" and
      e1: "entry lg1 = (entry lg)(k @ ''_loss'' \<mapsto> PList (items_of (entry lg (k @ ''_loss'')) @ [x1]))" and
      d1: "is_defaultdict lg1 = is_defaultdict lg" by blast
    from log_append_Inr [OF a2] obtain x2 where
      x2: "py_subscript v ''roc'' = Inr x2" and
      e2: "entry lg2 = (entry lg1)(k @ ''_roc'' \<mapsto> PList (items_of (entry lg1 (k @ ''_roc'')) @ [x2]))" and
      d2: "is_defaultdict lg2 = is_defaultdict lg1" by blast
    from x1 x2 have f: "field v ''loss'' = x1" "field v ''roc'' = x2"
      by (simp_all add: field_def)
    note ih = Cons.IH [OF a3 rest]
    have neq: "k @ ''_loss'' \<noteq> k @ ''_roc''" by (rule loss_neq_roc)
    show ?thesis
    proof (intro conjI allI)
      show "is_defaultdict lg' = is_defaultdict lg" using ih d1 d2 by simp
    next
      fix t
      show "entry lg' t =
        (if logged (item # items) t = [] then entry lg t
         else Some (PList (items_of (entry lg t) @ logged (item # items) t)))"
        using ih e1 e2 f neq item True by (auto simp: fun_upd_def)
    qed
  next
    case False
    from Cons.prems(1) item False obtain lg1 where
      a1: "log_append k (Inr v) lg = (Inr (), lg1)" and
      a3: "log_items rd items lg1 = (Inr u, lg')"
      by (auto simp: sbind_Inr)
    from log_append_Inr [OF a1] have
      e1: "entry lg1 = (entry lg)(k \<mapsto> PList (items_of (entry lg k) @ [v]))" and
      d1: "is_defaultdict lg1 = is_defaultdict lg" by auto
    note ih = Cons.IH [OF a3 rest]
    show ?thesis
    proof (intro conjI allI)
      show "is_defaultdict lg' = is_defaultdict lg" using ih d1 by simp
    next
      fix t
      show "entry lg' t =
        (if logged (item # items) t = [] then entry lg t
         else Some (PList (items_of (entry lg t) @ logged (item # items) t)))"
        using ih e1 item False by (auto simp: fun_upd_def)
    qed
  qed
qed

lemma log_items_succeeds:
  assumes "\<forall>(k, v)\<in>set items. map_of rd k = Some v"
    and "well_formed items"
    and "\<forall>t. logged items t \<noteq> [] \<longrightarrow> appendable lg t"
  shows "\<exists>lg'. log_items rd items lg = (Inr (), lg')"
  using assms
proof (induction items arbitrary: lg)
  case Nil
  then show ?case by (simp add: sreturn_def)
next
  case (Cons item items)
  obtain k v where item: "item = (k, v)" by (cases item)
  from Cons.prems(1) item have lookup: "dict_getitem rd k = Inr v"
    and rest: "\<forall>(k, v)\<in>set items. map_of rd k = Some v"
    by (auto simp: dict_getitem_def)
  from Cons.prems(2) have wf: "well_formed items" by (simp add: well_formed_def)
  have later: "logged items t \<noteq> [] \<Longrightarrow> appendable lg t" for t
    using Cons.prems(3) item by simp
  show ?case
  proof (cases "k \<in> set sample_sets")
    case True
    with Cons.prems(2) item obtain x1 x2 where
      x1: "py_subscript v ''loss'' = Inr x1" and x2: "py_subscript v ''roc'' = Inr x2"
      by (auto simp: well_formed_def succeeds_def split: sum.splits)
    have "appendable lg (k @ ''_loss'')" using Cons.prems(3) item True by simp
    then obtain lg1 where a1: "log_append (k @ ''_loss'') (Inr x1) lg = (Inr (), lg1)"
      using log_append_succeeds by blast
    have "appendable lg (k @ ''_roc'')" using Cons.prems(3) item True by simp
    then have "appendable lg1 (k @ ''_roc'')" by (rule appendable_after [OF a1])
    then obtain lg2 where a2: "log_append (k @ ''_roc'') (Inr x2) lg1 = (Inr (), lg2)"
      using log_append_succeeds by blast
    have "\<forall>t. logged items t \<noteq> [] \<longrightarrow> appendable lg2 t"
      using later appendable_after [OF a1] appendable_after [OF a2] by blast
    from Cons.IH [OF rest wf this] obtain lg' where "log_items rd items lg2 = (Inr (), lg')" ..
    with a1 a2 x1 x2 item True lookup show ?thesis
      by (auto simp: sbind_def ebind_def)
  next
    case False
    have "appendable lg k" using Cons.prems(3) item False by simp
    then obtain lg1 where a1: "log_append k (Inr v) lg = (Inr (), lg1)"
      using log_append_succeeds by blast
    have "\<forall>t. logged items t \<noteq> [] \<longrightarrow> appendable lg1 t"
      using later appendable_after [OF a1] by blast
    from Cons.IH [OF rest wf this] obtain lg' where "log_items rd items lg1 = (Inr (), lg')" ..
    with a1 item False show ?thesis
      by (auto simp: sbind_def)
  qed
qed

lemma dict_items_lookup:
  "distinct (map fst rd) \<Longrightarrow> \<forall>(k, v)\<in>set rd. map_of rd k = Some v"
  by auto

text \<open>
  C3, amended. Let \<open>results_dict\<close> be a dictionary whose sample-set entries hold
  \<open>'loss'\<close> and \<open>'roc'\<close>, and let every key that \<open>log\<close> is to append under be a list in
  \<open>self.logs\<close>, or be missing from the \<open>defaultdict\<close>. Then \<open>log\<close> returns, each such
  key holds its old list followed by the values logged under it, and no other entry
  changes.
\<close>

theorem log_appends_each_metric:
  assumes "distinct (map fst results_dict)"
    and "well_formed results_dict"
    and "\<forall>t. logged results_dict t \<noteq> [] \<longrightarrow> appendable lg t"
  shows "\<exists>lg'. log lg results_dict = (Inr (), lg') \<and>
           is_defaultdict lg' = is_defaultdict lg \<and>
           (\<forall>t. entry lg' t =
              (if logged results_dict t = [] then entry lg t
               else Some (PList (items_of (entry lg t) @ logged results_dict t))))"
proof -
  note lookup = dict_items_lookup [OF assms(1)]
  from log_items_succeeds [OF lookup assms(2) assms(3)]
  obtain lg' where r: "log_items results_dict results_dict lg = (Inr (), lg')" ..
  from log_items_Inr [OF r lookup] r show ?thesis by (auto simp: log_def)
qed

lemma log_items_Inr_touched:
  assumes "log_items rd items lg = (Inr u, lg')"
  shows "is_dict lg' = is_dict lg \<and> (\<forall>t. logged items t \<noteq> [] \<longrightarrow> appendable lg t)"
  using assms
proof (induction items arbitrary: lg)
  case Nil
  then show ?case by (simp add: sreturn_def)
next
  case (Cons item items)
  obtain k v where item: "item = (k, v)" by (cases item)
  show ?case
  proof (cases "k \<in> set sample_sets")
    case True
    from Cons.prems item True obtain arg1 arg2 lg1 lg2 where
      a1: "log_append (k @ ''_loss'') arg1 lg = (Inr (), lg1)" and
      a2: "log_append (k @ ''_roc'') arg2 lg1 = (Inr (), lg2)" and
      a3: "log_items rd items lg2 = (Inr u, lg')"
      by (auto simp: sbind_Inr)
    note ih = Cons.IH [OF a3]
    from log_append_Inr [OF a1] have k1: "appendable lg (k @ ''_loss'')"
      and d1: "is_dict lg" "is_dict lg1" by auto
    from log_append_Inr [OF a2] have "appendable lg1 (k @ ''_roc'')"
      and d2: "is_dict lg2" by auto
    then have k2: "appendable lg (k @ ''_roc'')" using appendable_before [OF a1] by blast
    have "appendable lg t" if "logged items t \<noteq> []" for t
      using that ih appendable_before [OF a1] appendable_before [OF a2] by blast
    with k1 k2 d1 d2 ih item True show ?thesis by auto
  next
    case False
    from Cons.prems item False obtain lg1 where
      a1: "log_append k (Inr v) lg = (Inr (), lg1)" and
      a3: "log_items rd items lg1 = (Inr u, lg')"
      by (auto simp: sbind_Inr)
    note ih = Cons.IH [OF a3]
    from log_append_Inr [OF a1] have k1: "appendable lg k"
      and d1: "is_dict lg" "is_dict lg1" by auto
    have "appendable lg t" if "logged items t \<noteq> []" for t
      using that ih appendable_before [OF a1] by blast
    with k1 d1 ih item False show ?thesis by auto
  qed
qed

lemma logged_lengths_agree:
  assumes "s @ ''_loss'' \<notin> fst ` set rd" and "s @ ''_roc'' \<notin> fst ` set rd"
  shows "length (logged rd (s @ ''_loss'')) = length (logged rd (s @ ''_roc''))"
  using assms
proof (induction rd)
  case Nil
  show ?case by simp
next
  case (Cons item rd)
  obtain k v where item: "item = (k, v)" by (cases item)
  have neq: "s @ ''_loss'' \<noteq> k @ ''_roc''" "s @ ''_roc'' \<noteq> k @ ''_loss''"
    using loss_neq_roc [of s k] loss_neq_roc [of k s] by auto
  from Cons item neq show ?case by auto
qed

lemma metric_len_entry:
  "metric_len lg key =
     (if is_dict lg then
        (case entry lg key of Some v \<Rightarrow> py_len v
         | None \<Rightarrow> if is_defaultdict lg then Some 0 else None)
      else None)"
  by (simp add: metric_len_def is_dict_def entry_def split: pyval.splits)

lemma appendable_entry:
  "appendable lg key \<longleftrightarrow>
     is_dict lg \<and> (case entry lg key of Some (PList xs) \<Rightarrow> True | Some _ \<Rightarrow> False
                   | None \<Rightarrow> is_defaultdict lg)"
  by (simp add: appendable_def is_dict_def entry_def split: pyval.splits option.splits)

lemma metric_len_after:
  assumes "appendable lg key"
    and "is_dict lg'" and "is_defaultdict lg' = is_defaultdict lg"
    and "entry lg' key = Some (PList (items_of (entry lg key) @ ys))"
    and "metric_len lg key = Some m"
  shows "metric_len lg' key = Some (m + length ys)"
  using assms
  by (auto simp: metric_len_entry appendable_entry py_len_def
      split: option.splits pyval.splits if_splits)

text \<open>
  C4, amended. A call of \<open>log\<close> that returns and whose \<open>results_dict\<close> has no key named
  \<open>s + '_loss'\<close> or \<open>s + '_roc'\<close> itself keeps \<open>len(logs[s + '_loss']) == len(logs[s + '_roc'])\<close>.
\<close>

theorem log_keeps_alignment:
  assumes "distinct (map fst results_dict)"
    and "s @ ''_loss'' \<notin> fst ` set results_dict"
    and "s @ ''_roc'' \<notin> fst ` set results_dict"
    and "log lg results_dict = (Inr (), lg')"
    and "aligned lg s"
  shows "aligned lg' s"
proof -
  let ?L = "logged results_dict (s @ ''_loss'')" and ?R = "logged results_dict (s @ ''_roc'')"
  from assms(4) have run: "log_items results_dict results_dict lg = (Inr (), lg')"
    by (simp add: log_def)
  note lookup = dict_items_lookup [OF assms(1)]
  from log_items_Inr [OF run lookup] have
    dd: "is_defaultdict lg' = is_defaultdict lg" and
    ent: "\<And>t. entry lg' t =
      (if logged results_dict t = [] then entry lg t
       else Some (PList (items_of (entry lg t) @ logged results_dict t)))"
    by auto
  from log_items_Inr_touched [OF run] have
    dict: "is_dict lg' = is_dict lg" and
    touched: "\<And>t. logged results_dict t \<noteq> [] \<Longrightarrow> appendable lg t"
    by auto
  have len: "length ?L = length ?R" using assms(2,3) by (rule logged_lengths_agree)
  from assms(5) obtain m where
    m1: "metric_len lg (s @ ''_loss'') = Some m" and m2: "metric_len lg (s @ ''_roc'') = Some m"
    by (auto simp: aligned_def split: option.splits)
  show ?thesis
  proof (cases "?L = []")
    case True
    with len have R: "?R = []" by simp
    have "metric_len lg' (s @ ''_loss'') = metric_len lg (s @ ''_loss'')"
      using True ent dd dict by (simp add: metric_len_entry)
    moreover have "metric_len lg' (s @ ''_roc'') = metric_len lg (s @ ''_roc'')"
      using R ent dd dict by (simp add: metric_len_entry)
    ultimately show ?thesis using m1 m2 by (simp add: aligned_def)
  next
    case False
    with len have R: "?R \<noteq> []" by auto
    from m1 have "is_dict lg" by (simp add: metric_len_entry split: if_splits)
    with dict have d': "is_dict lg'" by simp
    have "metric_len lg' (s @ ''_loss'') = Some (m + length ?L)"
      using touched [OF False] d' dd ent [of "s @ ''_loss''"] False m1
      by (intro metric_len_after) simp_all
    moreover have "metric_len lg' (s @ ''_roc'') = Some (m + length ?R)"
      using touched [OF R] d' dd ent [of "s @ ''_roc''"] R m2
      by (intro metric_len_after) simp_all
    ultimately show ?thesis using len by (simp add: aligned_def)
  qed
qed

lemma list_all_dict_set:
  "list_all Q d \<Longrightarrow> Q (k, v) \<Longrightarrow> list_all Q (dict_set k v d)"
  by (induction d) auto

lemma list_all_map_of:
  "list_all Q d \<Longrightarrow> map_of d k = Some v \<Longrightarrow> Q (k, v)"
  by (auto simp: list_all_iff dest: map_of_SomeD)

lemma log_append_scalars:
  assumes "metric_lists_of_scalars lg" and "\<And>x. arg = Inr x \<Longrightarrow> is_scalar x"
  shows "metric_lists_of_scalars (snd (log_append key arg lg))"
proof -
  from assms(1) obtain d where d: "logs lg = PDict d"
    and all: "list_all (\<lambda>(k, v). k = ''info'' \<or> scalar_list v) d"
    by (auto simp: metric_lists_of_scalars_def split: pyval.splits)
  have empty: "list_all (\<lambda>(k, v). k = ''info'' \<or> scalar_list v) (dict_set key (PList []) d)"
    using all by (rule list_all_dict_set) (simp add: scalar_list_def)
  have one: "list_all (\<lambda>(k, v). k = ''info'' \<or> scalar_list v) (dict_set key (PList [x]) d)"
    if "is_scalar x" for x
    using all by (rule list_all_dict_set) (simp add: scalar_list_def that)
  have more: "list_all (\<lambda>(k, v). k = ''info'' \<or> scalar_list v)
      (dict_set key (PList (xs @ [x])) d)"
    if "is_scalar x" "map_of d key = Some (PList xs)" for x xs
  proof -
    from list_all_map_of [OF all that(2)] have "key = ''info'' \<or> list_all is_scalar xs"
      by (simp add: scalar_list_def)
    then have "key = ''info'' \<or> scalar_list (PList (xs @ [x]))"
      using that(1) by (auto simp: scalar_list_def)
    with all show ?thesis by (intro list_all_dict_set) simp_all
  qed
  show ?thesis
    unfolding log_append_cases
    using d all empty one more assms(2)
    by (auto simp: metric_lists_of_scalars_def split: option.splits pyval.splits sum.splits)
qed

lemma sbind_invariant:
  assumes "\<And>lg. I lg \<Longrightarrow> I (snd (m lg))" and "\<And>a lg. I lg \<Longrightarrow> I (snd (f a lg))" and "I lg"
  shows "I (snd (sbind m f lg))"
proof (cases "m lg")
  case (Pair r lg1)
  with assms(1) [OF assms(3)] have "I lg1" by simp
  with Pair assms(2) show ?thesis by (cases r) (auto simp: sbind_def)
qed

lemma log_items_scalars:
  assumes "scalar_results rd" and "set items \<subseteq> set rd" and "metric_lists_of_scalars lg"
  shows "metric_lists_of_scalars (snd (log_items rd items lg))"
  using assms(2,3)
proof (induction items arbitrary: lg)
  case Nil
  then show ?case by (simp add: sreturn_def)
next
  case (Cons item items)
  obtain k v where item: "item = (k, v)" by (cases item)
  have field_ok: "is_scalar x"
    if "ebind (dict_getitem rd k) (\<lambda>r. py_subscript r f) = Inr x"
      and "k \<in> set sample_sets" and "f = ''loss'' \<or> f = ''roc''" for f x
  proof -
    from that(1) obtain w where w: "map_of rd k = Some w" and x: "py_subscript w f = Inr x"
      by (auto simp: ebind_def dict_getitem_def split: option.splits sum.splits)
    from list_all_map_of [OF assms(1) [unfolded scalar_results_def] w] that(2)
    have "scalar_field w ''loss'' \<and> scalar_field w ''roc''" by simp
    with x that(3) show ?thesis by (auto simp: scalar_field_def)
  qed
  have value_ok: "is_scalar v" if "k \<notin> set sample_sets"
  proof -
    from Cons.prems(1) item have "(k, v) \<in> set rd" by auto
    with assms(1) that show ?thesis by (auto simp: scalar_results_def list_all_iff)
  qed
  from Cons.prems(1) have sub: "set items \<subseteq> set rd" by simp
  have rest: "metric_lists_of_scalars (snd (log_items rd items lg1))"
    if "metric_lists_of_scalars lg1" for lg1
    using Cons.IH [OF sub that] .
  show ?case
    unfolding item log_items.simps
  proof (rule sbind_invariant [where I = metric_lists_of_scalars])
    show "metric_lists_of_scalars lg" by (rule Cons.prems(2))
  next
    fix a lg1 assume "metric_lists_of_scalars lg1"
    then show "metric_lists_of_scalars (snd (log_items rd items lg1))" by (rule rest)
  next
    fix lg1 assume inv: "metric_lists_of_scalars lg1"
    show "metric_lists_of_scalars
      (snd ((if k \<in> set sample_sets
             then sbind (log_append (k @ ''_loss'')
                      (ebind (dict_getitem rd k) (\<lambda>r. py_subscript r ''loss'')))
                   (\<lambda>_. log_append (k @ ''_roc'')
                      (ebind (dict_getitem rd k) (\<lambda>r. py_subscript r ''roc'')))
             else log_append k (Inr v)) lg1))"
    proof (cases "k \<in> set sample_sets")
      case True
      have "metric_lists_of_scalars
        (snd (sbind (log_append (k @ ''_loss'')
                      (ebind (dict_getitem rd k) (\<lambda>r. py_subscript r ''loss'')))
                   (\<lambda>_. log_append (k @ ''_roc'')
                      (ebind (dict_getitem rd k) (\<lambda>r. py_subscript r ''roc''))) lg1))"
        by (rule sbind_invariant [where I = metric_lists_of_scalars])
          (auto intro!: log_append_scalars inv field_ok True)
      with True show ?thesis by simp
    next
      case False
      then show ?thesis using inv value_ok by (auto intro!: log_append_scalars)
    qed
  qed
qed

lemma log_scalars:
  "scalar_results rd \<Longrightarrow> metric_lists_of_scalars lg \<Longrightarrow>
   metric_lists_of_scalars (snd (log lg rd))"
  unfolding log_def by (rule log_items_scalars) simp_all

lemma take_append_kept:
  assumes "take (length xs) zs = xs"
  shows "take (length xs) (zs @ [x]) = xs"
proof -
  from assms have "length (take (length xs) zs) = length xs" by simp
  then have "length xs \<le> length zs" by simp
  with assms show ?thesis by simp
qed

lemma log_append_info:
  assumes "info_held info lg"
  shows "info_held info (snd (log_append key arg lg))"
proof -
  from assms obtain d v where d: "logs lg = PDict d" and v: "map_of d ''info'' = Some v"
    by (auto simp: info_held_def entry_def split: option.splits pyval.splits)
  from assms d v have held:
    "case info of
       PList xs \<Rightarrow> (case v of PList zs \<Rightarrow> take (length xs) zs = xs | _ \<Rightarrow> False)
     | _ \<Rightarrow> v = info"
    by (simp add: info_held_def entry_def)
  have same: "info_held info (lg\<lparr>logs := PDict (dict_set key w d)\<rparr>)" if "key \<noteq> ''info''" for w
    using that held v by (simp add: info_held_def entry_def map_of_dict_set)
  have longer: "info_held info (lg\<lparr>logs := PDict (dict_set ''info'' (PList (zs @ [x])) d)\<rparr>)"
    if vz: "v = PList zs" for zs x
  proof -
    from held vz obtain xs where info: "info = PList xs" and t: "take (length xs) zs = xs"
      by (cases info) auto
    from take_append_kept [OF t] info show ?thesis
      by (simp add: info_held_def entry_def map_of_dict_set del: take_append)
  qed
  show ?thesis
  proof (cases "key = ''info''")
    case True
    with d v longer assms show ?thesis
      unfolding log_append_cases
      by (auto split: pyval.splits sum.splits)
  next
    case False
    with d same assms show ?thesis
      unfolding log_append_cases
      by (auto split: pyval.splits option.splits sum.splits)
  qed
qed

lemma log_items_info:
  "info_held info lg \<Longrightarrow> info_held info (snd (log_items rd items lg))"
proof (induction items arbitrary: lg)
  case Nil
  then show ?case by (simp add: sreturn_def)
next
  case (Cons item items)
  obtain k v where item: "item = (k, v)" by (cases item)
  show ?case
    unfolding item log_items.simps
  proof (rule sbind_invariant [where I = "info_held info"])
    show "info_held info lg" by (rule Cons.prems)
  next
    fix a :: unit and lg1 assume "info_held info lg1"
    then show "info_held info (snd (log_items rd items lg1))" by (rule Cons.IH)
  next
    fix lg1 assume inv: "info_held info lg1"
    show "info_held info
      (snd ((if k \<in> set sample_sets
             then sbind (log_append (k @ ''_loss'')
                      (ebind (dict_getitem rd k) (\<lambda>r. py_subscript r ''loss'')))
                   (\<lambda>_. log_append (k @ ''_roc'')
                      (ebind (dict_getitem rd k) (\<lambda>r. py_subscript r ''roc'')))
             else log_append k (Inr v)) lg1))"
    proof (cases "k \<in> set sample_sets")
      case True
      have "info_held info
        (snd (sbind (log_append (k @ ''_loss'')
                      (ebind (dict_getitem rd k) (\<lambda>r. py_subscript r ''loss'')))
                   (\<lambda>_. log_append (k @ ''_roc'')
                      (ebind (dict_getitem rd k) (\<lambda>r. py_subscript r ''roc''))) lg1))"
        by (rule sbind_invariant [where I = "info_held info"])
          (auto intro!: log_append_info inv)
      with True show ?thesis by simp
    next
      case False
      then show ?thesis using inv by (auto intro!: log_append_info)
    qed
  qed
qed

lemma log_calls_info:
  "info_held info lg \<Longrightarrow> info_held info (log_calls lg calls)"
  by (induction calls arbitrary: lg) (auto simp: log_def intro: log_items_info)

text \<open>
  C7, amended. After the constructor and any sequence of \<open>log\<close> calls in which every
  logged value is a scalar, every value stored in \<open>self.logs\<close> under a key other than
  \<open>'info'\<close> is a list of scalars; and \<open>self.logs['info']\<close> is there and holds the value
  that the argument \<open>info\<close> had when the logger was made, or, when that was a list, a
  list that starts with its items.
\<close>

theorem logs_hold_lists_of_scalars:
  assumes "list_all scalar_results calls"
  shows "metric_lists_of_scalars (log_calls (Logger_init info) calls) \<and>
         info_held info (log_calls (Logger_init info) calls)"
proof
  have init: "metric_lists_of_scalars (Logger_init info)"
    by (simp add: metric_lists_of_scalars_def Logger_init_def)
  have "metric_lists_of_scalars lg \<Longrightarrow> list_all scalar_results calls \<Longrightarrow>
      metric_lists_of_scalars (log_calls lg calls)" for lg
    by (induction calls arbitrary: lg) (auto intro: log_scalars)
  from this [OF init assms]
  show "metric_lists_of_scalars (log_calls (Logger_init info) calls)" .
next
  have "info_held info (Logger_init info)"
    by (simp add: info_held_def entry_def Logger_init_def split: pyval.splits)
  then show "info_held info (log_calls (Logger_init info) calls)" by (rule log_calls_info)
qed

lemmas log_eval =
  log_def log_append_def sbind_def sreturn_def slift_def ebind_def logs_getitem_def
  logs_setitem_def dict_getitem_def py_subscript_def sample_sets_def Logger_init_def

theorem log_appends_each_metric_witness:
  "\<exists>lg'. log (Logger_init PNone)
           [(''train'', PDict [(''loss'', PFloat (1 / 2)), (''roc'', PFloat (3 / 4))]),
            (''lr'', PFloat (1 / 100))] = (Inr (), lg') \<and>
         entry lg' ''train_loss'' = Some (PList [PFloat (1 / 2)]) \<and>
         entry lg' ''train_roc'' = Some (PList [PFloat (3 / 4)]) \<and>
         entry lg' ''lr'' = Some (PList [PFloat (1 / 100)]) \<and>
         entry lg' ''info'' = Some PNone"
proof -
  let ?rd = "[(''train'', PDict [(''loss'', PFloat (1 / 2)), (''roc'', PFloat (3 / 4))]),
              (''lr'', PFloat (1 / 100))]"
  have h1: "distinct (map fst ?rd)" by simp
  have h2: "well_formed ?rd"
    by (simp add: well_formed_def succeeds_def py_subscript_def dict_getitem_def
        sample_sets_def)
  have h3: "\<forall>t. logged ?rd t \<noteq> [] \<longrightarrow> appendable (Logger_init PNone) t"
    by (auto simp: sample_sets_def appendable_def Logger_init_def)
  from log_appends_each_metric [OF h1 h2 h3] obtain lg' where
    run: "log (Logger_init PNone) ?rd = (Inr (), lg')" and
    ent: "\<And>t. entry lg' t =
      (if logged ?rd t = [] then entry (Logger_init PNone) t
       else Some (PList (items_of (entry (Logger_init PNone) t) @ logged ?rd t)))"
    by blast
  have "entry lg' ''train_loss'' = Some (PList [PFloat (1 / 2)])"
    and "entry lg' ''train_roc'' = Some (PList [PFloat (3 / 4)])"
    and "entry lg' ''lr'' = Some (PList [PFloat (1 / 100)])"
    and "entry lg' ''info'' = Some PNone"
    unfolding ent
    by (simp_all add: sample_sets_def field_def py_subscript_def dict_getitem_def entry_def
        Logger_init_def)
  with run show ?thesis by blast
qed

text \<open>
  C3 as stated fails: on a new \<open>Logger()\<close> the entry \<open>'info'\<close> is \<open>None\<close>, and logging
  under \<open>'info'\<close> raises AttributeError and appends nothing; after \<open>load\<close> the logs are
  a plain dictionary, and logging under a new key raises KeyError.
\<close>

theorem log_every_results_dict_counterexample:
  "log (Logger_init PNone) [(''info'', PInt 5)] = (Inl AttributeError, Logger_init PNone) \<and>
   log \<lparr>logs = PDict [(''info'', PNone)], is_defaultdict = False\<rparr> [(''lr'', PInt 1)] =
     (Inl KeyError, \<lparr>logs = PDict [(''info'', PNone)], is_defaultdict = False\<rparr>)"
  by (simp add: log_eval)

theorem log_keeps_alignment_witness:
  "aligned (Logger_init PNone) ''valid'' \<and>
   aligned (snd (log (Logger_init PNone)
      [(''valid'', PDict [(''loss'', PFloat (1 / 4)), (''roc'', PFloat (7 / 8))]),
       (''epoch'', PInt 1)])) ''valid''"
proof -
  let ?rd = "[(''valid'', PDict [(''loss'', PFloat (1 / 4)), (''roc'', PFloat (7 / 8))]),
              (''epoch'', PInt 1)]"
  let ?lg' = "\<lparr>logs = PDict [(''info'', PNone), (''valid_loss'', PList [PFloat (1 / 4)]),
       (''valid_roc'', PList [PFloat (7 / 8)]), (''epoch'', PList [PInt 1])],
     is_defaultdict = True\<rparr>"
  have h1: "distinct (map fst ?rd)" by simp
  have h2: "''valid'' @ ''_loss'' \<notin> fst ` set ?rd" by simp
  have h3: "''valid'' @ ''_roc'' \<notin> fst ` set ?rd" by simp
  have h4: "log (Logger_init PNone) ?rd = (Inr (), ?lg')" by (simp add: log_eval)
  have h5: "aligned (Logger_init PNone) ''valid''"
    by (simp add: aligned_def metric_len_def Logger_init_def)
  from log_keeps_alignment [OF h1 h2 h3 h4 h5] h4 h5 show ?thesis by simp
qed

text \<open>
  C4 as stated fails: logging under the key \<open>'train_loss'\<close> itself lengthens one list
  only, and a \<open>'train'\<close> entry without \<open>'roc'\<close> raises KeyError after the loss has been
  appended.
\<close>

theorem log_alignment_counterexample:
  "aligned (Logger_init PNone) ''train'' \<and>
   fst (log (Logger_init PNone) [(''train_loss'', PFloat (1 / 2))]) = Inr () \<and>
   \<not> aligned (snd (log (Logger_init PNone) [(''train_loss'', PFloat (1 / 2))])) ''train'' \<and>
   fst (log (Logger_init PNone) [(''train'', PDict [(''loss'', PFloat (1 / 2))])]) = Inl KeyError \<and>
   \<not> aligned (snd (log (Logger_init PNone) [(''train'', PDict [(''loss'', PFloat (1 / 2))])]))
        ''train''"
  by (simp add: log_eval aligned_def metric_len_def py_len_def)

theorem logs_hold_lists_of_scalars_witness:
  "metric_lists_of_scalars (log_calls (Logger_init (PDict [(''model_type'', PStr ''GCN'')]))
     [[(''train'', PDict [(''loss'', PFloat (1 / 2)), (''roc'', PFloat (3 / 4))]),
       (''lr'', PFloat (1 / 100))],
      [(''train'', PDict [(''loss'', PFloat (1 / 3))])]]) \<and>
   info_held (PDict [(''model_type'', PStr ''GCN'')])
     (log_calls (Logger_init (PDict [(''model_type'', PStr ''GCN'')]))
     [[(''train'', PDict [(''loss'', PFloat (1 / 2)), (''roc'', PFloat (3 / 4))]),
       (''lr'', PFloat (1 / 100))],
      [(''train'', PDict [(''loss'', PFloat (1 / 3))])]]) \<and>
   info_held (PList [PStr ''GCN''])
     (log_calls (Logger_init (PList [PStr ''GCN''])) [[(''info'', PInt 5)]]) \<and>
   entry (log_calls (Logger_init (PList [PStr ''GCN''])) [[(''info'', PInt 5)]]) ''info'' =
     Some (PList [PStr ''GCN'', PInt 5])"
proof -
  have "list_all scalar_results
     [[(''train'', PDict [(''loss'', PFloat (1 / 2)), (''roc'', PFloat (3 / 4))]),
       (''lr'', PFloat (1 / 100))],
      [(''train'', PDict [(''loss'', PFloat (1 / 3))])]]"
    by (simp add: scalar_results_def scalar_field_def py_subscript_def dict_getitem_def
        is_scalar_def sample_sets_def)
  note one = logs_hold_lists_of_scalars [OF this, of "PDict [(''model_type'', PStr ''GCN'')]"]
  have "list_all scalar_results [[(''info'', PInt 5)]]"
    by (simp add: scalar_results_def is_scalar_def sample_sets_def)
  note two = logs_hold_lists_of_scalars [OF this, of "PList [PStr ''GCN'']"]
  have "entry (log_calls (Logger_init (PList [PStr ''GCN''])) [[(''info'', PInt 5)]]) ''info'' =
     Some (PList [PStr ''GCN'', PInt 5])"
    by (simp add: log_eval entry_def)
  with one two show ?thesis by blast
qed

text \<open>
  C7 as stated fails: right after \<open>Logger()\<close> the logs hold \<open>None\<close> under \<open>'info'\<close>, which
  is no list.
\<close>

theorem logs_hold_lists_counterexample:
  "\<not> lists_of_scalars (log_calls (Logger_init PNone) [])"
  by (simp add: lists_of_scalars_def Logger_init_def scalar_list_def)

section \<open>Properties of \<open>save\<close> and \<open>load\<close>\<close>

lemma dict_set_new: "k \<notin> fst ` set d \<Longrightarrow> dict_set k v d = d @ [(k, v)]"
  by (induction d) auto

lemma build_dict_acc:
  "distinct (map fst (acc @ pairs)) \<Longrightarrow>
   foldl (\<lambda>d (k, v). dict_set k v d) acc pairs = acc @ pairs"
proof (induction pairs arbitrary: acc)
  case Nil
  show ?case by simp
next
  case (Cons p pairs)
  obtain k v where p: "p = (k, v)" by (cases p)
  from Cons.prems p have new: "k \<notin> fst ` set acc" by auto
  from Cons.prems p have "distinct (map fst ((acc @ [(k, v)]) @ pairs))" by simp
  from Cons.IH [OF this] new p show ?case by (simp add: dict_set_new)
qed

lemma build_dict_distinct: "distinct (map fst d) \<Longrightarrow> build_dict d = d"
  using build_dict_acc [of "[]" d] by (simp add: build_dict_def)

lemma json_round_trip:
  "json_native v \<Longrightarrow> \<exists>j. to_json v = Some j \<and> from_json j = v"
  "json_native_list xs \<Longrightarrow> \<exists>js. to_json_list xs = Some js \<and> from_json_list js = xs"
  "json_native_items d \<Longrightarrow> \<exists>ms. to_json_items d = Some ms \<and> from_json_items ms = d"
proof (induction v and xs and d rule: to_json_to_json_list_to_json_items.induct)
  case (8 d)
  then obtain ms where ms: "to_json_items d = Some ms" "from_json_items ms = d" by auto
  from 8 have "distinct (map fst d)" by simp
  with ms show ?case by (simp add: build_dict_distinct)
qed auto

lemma py_eq_refl:
  "json_native v \<Longrightarrow> py_eq v v"
  "json_native_list xs \<Longrightarrow> py_eq_list xs xs"
  "json_native_items d \<Longrightarrow> (\<forall>(k, v)\<in>set d. map_of d' k = Some v) \<Longrightarrow> py_eq_items d d'"
proof (induction v and xs and d arbitrary: and and d'
    rule: json_native_json_native_list_json_native_items.induct)
  case (8 d)
  then have "\<forall>(k, v)\<in>set d. map_of d k = Some v" by auto
  with 8 show ?case by simp
qed (auto simp: num_val_def)

text \<open>
  C5, amended. When \<open>self.logs\<close> holds only \<open>None\<close>, booleans, integers, floats other
  than NaN, strings, lists and dictionaries with distinct string keys of such values
  (no tuple, no NaN, nothing \<open>json.dump\<close> rejects), the path ends in \<open>.json\<close>, the
  platform lets this path be written and read, and no limit of the interpreter stops
  the encoding or the decoding of the logs, then \<open>save\<close> returns and a \<open>load\<close> of the
  same path, by this or another logger, returns and makes \<open>self.logs\<close> the value that
  was saved, which is equal to it under \<open>==\<close>.
\<close>

theorem save_load_round_trip:
  assumes "json_native (logs lg)" and "endswith filepath ''.json''"
    and "writable fs filepath" and "readable fs filepath" and "within_limits fs (logs lg)"
  shows "\<exists>fs'. save lg filepath fs = (Inr (), fs') \<and>
           load fs' filepath lg' = (Inr (), \<lparr>logs = logs lg, is_defaultdict = False\<rparr>) \<and>
           py_eq (logs (snd (load fs' filepath lg'))) (logs lg)"
proof -
  from json_round_trip(1) [OF assms(1)] obtain j where
    "to_json (logs lg) = Some j" "from_json j = logs lg" by blast
  with assms(2-5) py_eq_refl(1) [OF assms(1)] show ?thesis
    by (simp add: save_def load_def json_load_def)
qed

theorem save_load_round_trip_witness:
  "\<exists>fs'. save \<lparr>logs = example_logs, is_defaultdict = True\<rparr> ''logs.json'' example_platform =
             (Inr (), fs') \<and>
         load fs' ''logs.json'' (Logger_init PNone) =
             (Inr (), \<lparr>logs = example_logs, is_defaultdict = False\<rparr>)"
proof -
  have h1: "json_native (logs \<lparr>logs = example_logs, is_defaultdict = True\<rparr>)"
    by (simp add: example_logs_def)
  have h2: "endswith ''logs.json'' ''.json''" by (simp add: endswith_def)
  have h3: "writable example_platform ''logs.json''" by (simp add: example_platform_def)
  have h4: "readable example_platform ''logs.json''" by (simp add: example_platform_def)
  have h5: "within_limits example_platform (logs \<lparr>logs = example_logs, is_defaultdict = True\<rparr>)"
    by (simp add: example_platform_def)
  from save_load_round_trip [OF h1 h2 h3 h4 h5, of "Logger_init PNone"]
  show ?thesis by auto
qed

text \<open>
  C5 as stated fails, in four ways. \<open>Logger(info={'lr': (0, 5)})\<close> is serialisable, but
  the tuple is written as an array and comes back as the list \<open>[0, 5]\<close>, which is not
  equal to the tuple. \<open>Logger(info=float('nan'))\<close> is serialisable and comes back as a
  NaN, which is equal to no value. Where the directory of the path is missing \<open>save\<close>
  raises at \<open>open\<close> and \<open>load\<close> finds no file. And with a path that does not end in
  \<open>.json\<close> the assertion stops \<open>save\<close>, so that \<open>load\<close> reads what an older file at that
  path held.
\<close>

theorem save_load_counterexample:
  "serialisable (logs (Logger_init (PDict [(''lr'', PTuple [PInt 0, PInt 5])]))) \<and>
   fst (save (Logger_init (PDict [(''lr'', PTuple [PInt 0, PInt 5])])) ''logs.json''
          example_platform)
     = Inr () \<and>
   fst (load
      (snd (save (Logger_init (PDict [(''lr'', PTuple [PInt 0, PInt 5])])) ''logs.json''
              example_platform))
      ''logs.json'' (Logger_init (PDict [(''lr'', PTuple [PInt 0, PInt 5])])))
     = Inr () \<and>
   logs (snd (load
      (snd (save (Logger_init (PDict [(''lr'', PTuple [PInt 0, PInt 5])])) ''logs.json''
              example_platform))
      ''logs.json'' (Logger_init (PDict [(''lr'', PTuple [PInt 0, PInt 5])]))))
     = PDict [(''info'', PDict [(''lr'', PList [PInt 0, PInt 5])])] \<and>
   \<not> py_eq (PDict [(''info'', PDict [(''lr'', PList [PInt 0, PInt 5])])])
        (logs (Logger_init (PDict [(''lr'', PTuple [PInt 0, PInt 5])]))) \<and>
   serialisable (logs (Logger_init PNaN)) \<and>
   fst (save (Logger_init PNaN) ''logs.json'' example_platform) = Inr () \<and>
   load (snd (save (Logger_init PNaN) ''logs.json'' example_platform)) ''logs.json''
        (Logger_init PNaN)
     = (Inr (), \<lparr>logs = PDict [(''info'', PNaN)], is_defaultdict = False\<rparr>) \<and>
   \<not> py_eq (PDict [(''info'', PNaN)]) (logs (Logger_init PNaN)) \<and>
   save (Logger_init PNone) ''missing/logs.json'' missing_directory
     = (Inl OSError, missing_directory) \<and>
   fst (load missing_directory ''missing/logs.json'' (Logger_init PNone))
     = Inl FileNotFoundError \<and>
   fst (save (Logger_init PNone) ''logs.txt''
          (example_platform\<lparr>files := Map.empty(''logs.txt'' \<mapsto> Json (JObj []))\<rparr>))
     = Inl AssertionError \<and>
   snd (load
      (snd (save (Logger_init PNone) ''logs.txt''
              (example_platform\<lparr>files := Map.empty(''logs.txt'' \<mapsto> Json (JObj []))\<rparr>)))
      ''logs.txt'' (Logger_init PNone))
     = \<lparr>logs = PDict [], is_defaultdict = False\<rparr>"
  by (simp add: serialisable_def save_def load_def json_load_def endswith_def Logger_init_def
      build_dict_def example_platform_def missing_directory_def)
section \<open>Properties of \<open>print\<close> and \<open>print_experiment\<close>\<close>















subsection \<open>A \<open>print\<close> that returns has changed nothing\<close>









subsection \<open>The logs that \<open>print_experiment\<close> leaves\<close>









section \<open>Properties of \<open>plot_run\<close>\<close>

lemma those_map_Some: "those (map (\<lambda>x. Some (f x)) xs) = Some (map f xs)"
  by (induction xs) simp_all





end
